theory Spec2Isabelle
  imports Main
begin

section \<open>Byte strings of Python 2\<close>

text \<open>
  The module is Python 2 code (\<^verbatim>\<open>httplib\<close>, \<^verbatim>\<open>types.ListType\<close>,
  \<^verbatim>\<open>urllib.urlencode\<close>): a \<^verbatim>\<open>str\<close> is a byte string, here a \<open>char list\<close>.
\<close>

abbreviation NL :: char where
  "NL \<equiv> CHR 0x0A"

text \<open>The whitespace of \<^verbatim>\<open>str.strip()\<close> and of the regular expression's \<^verbatim>\<open>\s\<close>:
  space, tab, line feed, vertical tab, form feed, carriage return.\<close>

definition isspace :: "char \<Rightarrow> bool" where
  "isspace c = (c = CHR '' '' \<or> c = CHR 0x09 \<or> c = CHR 0x0A \<or> c = CHR 0x0B
                \<or> c = CHR 0x0C \<or> c = CHR 0x0D)"

text \<open>The character class \<^verbatim>\<open>[A-Za-z]\<close>.\<close>

definition isalpha :: "char \<Rightarrow> bool" where
  "isalpha c = (let n = (of_char c :: nat) in (65 \<le> n \<and> n \<le> 90) \<or> (97 \<le> n \<and> n \<le> 122))"

text \<open>\<^verbatim>\<open>s.strip()\<close>: whitespace removed at both ends.\<close>

definition strip :: "string \<Rightarrow> string" where
  "strip s = rev (dropWhile isspace (rev (dropWhile isspace s)))"

text \<open>\<^verbatim>\<open>s.split(sep)\<close> for a separator of one character: the pieces between the
  separators, empty pieces kept; the empty string gives one empty piece.\<close>

fun str_split :: "char \<Rightarrow> string \<Rightarrow> string list" where
  "str_split sep [] = [[]]"
| "str_split sep (c # cs) =
     (if c = sep then [] # str_split sep cs
      else (case str_split sep cs of
              [] \<Rightarrow> [[c]]
            | piece # pieces \<Rightarrow> (c # piece) # pieces))"

section \<open>The regular expression of a response line\<close>

text \<open>
  \<^verbatim>\<open>KEY_VALUE_RE = re.compile('^([A-Za-z]+)\:\s*(.*)$')\<close>, used with \<^verbatim>\<open>match\<close>.
  Group 1 is the longest run of letters at the start (no shorter run is followed by a
  colon), which must be non-empty and followed by a colon. Then \<^verbatim>\<open>\s*\<close> takes \<open>n\<close>
  whitespace characters, the largest \<open>n\<close> first; \<^verbatim>\<open>(.*)\<close> takes every character up
  to the next line feed, and \<^verbatim>\<open>$\<close> holds at the end of the string or just before a
  line feed that ends it. When \<^verbatim>\<open>$\<close> fails the matcher backtracks to \<open>n - 1\<close>.
\<close>

fun value_group :: "nat \<Rightarrow> string \<Rightarrow> string option" where
  "value_group n r =
     (let t = drop n r;
          v = takeWhile (\<lambda>c. c \<noteq> NL) t;
          e = dropWhile (\<lambda>c. c \<noteq> NL) t
      in if e = [] \<or> e = [NL] then Some v
         else (case n of 0 \<Rightarrow> None | Suc m \<Rightarrow> value_group m r))"

definition KEY_VALUE_RE_match :: "string \<Rightarrow> (string \<times> string) option" where
  "KEY_VALUE_RE_match s =
     (let key = takeWhile isalpha s; rest = dropWhile isalpha s
      in if key = [] then None
         else (case rest of
                 [] \<Rightarrow> None
               | c # r \<Rightarrow>
                   if c = CHR '':''
                   then map_option (\<lambda>v. (key, v)) (value_group (length (takeWhile isspace r)) r)
                   else None))"

section \<open>Errors and responses\<close>

text \<open>
  The exceptions that leave the module. \<open>ClickatellError code message\<close> is the class of
  the source (\<open>code\<close> is \<open>None\<close> for Python's \<^verbatim>\<open>None\<close>); the others are raised by
  Python itself: \<open>AttributeError\<close> by \<^verbatim>\<open>match.group\<close> on \<^verbatim>\<open>None\<close> and by a failed
  attribute lookup, \<open>ValueError\<close> by unpacking a list that has not two items into
  \<^verbatim>\<open>code, message\<close>, \<open>KeyError\<close> by \<^verbatim>\<open>auth['OK']\<close>, \<open>TypeError\<close> by calling what
  cannot be called so, and \<open>TransportError\<close> stands for whatever \<^verbatim>\<open>httplib\<close>
  raises.
\<close>

datatype error =
    ClickatellError "string option" string
  | AttributeError
  | ValueError
  | KeyError
  | TypeError
  | TransportError

text \<open>A value of the response dict: a string for a unique key, a list for a repeating
  one.\<close>

datatype val = Str string | Lst "string list"

text \<open>
  \<^verbatim>\<open>ClickatellResponse\<close> is a subclass of Python 2's \<^verbatim>\<open>dict\<close>: a finite map from
  keys to values that keeps no record of the order of insertion.
\<close>

type_synonym response = "string \<rightharpoonup> val"

section \<open>Parsing a response\<close>

text \<open>The error branch of \<^verbatim>\<open>_parse_response\<close> (key \<^verbatim>\<open>ERR\<close>): the exception it
  raises for the matched value.\<close>

definition raise_ERR :: "string \<Rightarrow> error" where
  "raise_ERR value =
     (if CHR '','' \<in> set value
      then (case str_split (CHR '','') value of
              [code, message] \<Rightarrow> ClickatellError (Some (strip code)) (strip message)
            | _ \<Rightarrow> ValueError)
      else ClickatellError None (strip value))"

text \<open>The storing branch: the value of a unique key is stored as a string, the values
  of a repeating key are stored in a list.\<close>

definition store :: "response \<Rightarrow> string \<Rightarrow> string \<Rightarrow> response" where
  "store self key value =
     (case self key of
        Some (Lst vs) \<Rightarrow> self(key \<mapsto> Lst (vs @ [value]))
      | Some (Str v) \<Rightarrow> self(key \<mapsto> Lst [v, value])
      | None \<Rightarrow> self(key \<mapsto> Str value))"

text \<open>The loop of \<^verbatim>\<open>_parse_response\<close> over the lines, \<open>self\<close> being the dict filled
  so far. An exception ends the loop and the dict is lost with it.\<close>

fun parse_lines :: "response \<Rightarrow> string list \<Rightarrow> error + response" where
  "parse_lines self [] = Inr self"
| "parse_lines self (line # lines) =
     (let line = strip line
      in if line = [] then parse_lines self lines
         else (case KEY_VALUE_RE_match line of
                 None \<Rightarrow> Inl AttributeError
               | Some (key, value) \<Rightarrow>
                   if key = ''ERR'' then Inl (raise_ERR value)
                   else parse_lines (store self key value) lines))"

text \<open>\<^verbatim>\<open>ClickatellResponse(data)\<close>: a new, empty dict filled by
  \<^verbatim>\<open>_parse_response(data)\<close>.\<close>

definition parse_response :: "string \<Rightarrow> error + response" where
  "parse_response data = parse_lines Map.empty (str_split NL data)"

definition ClickatellResponse :: "string \<Rightarrow> error + response" where
  "ClickatellResponse data = parse_response data"

section \<open>The lines of a response, as the properties speak of them\<close>

text \<open>The non-empty lines of a response text, trimmed.\<close>

definition response_lines :: "string \<Rightarrow> string list" where
  "response_lines data = filter (\<lambda>l. l \<noteq> []) (map strip (str_split NL data))"

text \<open>A response text is well formed when each of these lines matches the pattern.\<close>

definition well_formed :: "string \<Rightarrow> bool" where
  "well_formed data = list_all (\<lambda>l. KEY_VALUE_RE_match l \<noteq> None) (response_lines data)"

text \<open>The key and the value of every matching line, in the order of the text.\<close>

definition line_pairs :: "string list \<Rightarrow> (string \<times> string) list" where
  "line_pairs ls = List.map_filter KEY_VALUE_RE_match (filter (\<lambda>l. l \<noteq> []) (map strip ls))"

definition pairs :: "string \<Rightarrow> (string \<times> string) list" where
  "pairs data = line_pairs (str_split NL data)"

definition keys_of :: "string \<Rightarrow> string list" where
  "keys_of data = map fst (pairs data)"

text \<open>The values a key has in the text, in the order received.\<close>

definition occurrences :: "string \<Rightarrow> string \<Rightarrow> string list" where
  "occurrences key data = map snd (filter (\<lambda>kv. fst kv = key) (pairs data))"

text \<open>What a key holds after further values \<open>vs\<close> have been stored under it.\<close>

fun merged :: "val option \<Rightarrow> string list \<Rightarrow> val option" where
  "merged old [] = old"
| "merged None [v] = Some (Str v)"
| "merged None (v # w # vs) = Some (Lst (v # w # vs))"
| "merged (Some (Str u)) (v # vs) = Some (Lst (u # v # vs))"
| "merged (Some (Lst us)) (v # vs) = Some (Lst (us @ v # vs))"

section \<open>The client\<close>

definition SERVER :: string where
  "SERVER = ''api.clickatell.com''"

text \<open>\<^verbatim>\<open>Clickatell.METHODS\<close>: all of the methods supported by the API.\<close>

definition METHODS :: "string \<rightharpoonup> string" where
  "METHODS =
     [''auth'' \<mapsto> ''http/auth'',
      ''delmsg'' \<mapsto> ''http/delmsg'',
      ''getbalance'' \<mapsto> ''http/getbalance'',
      ''getmsgcharge'' \<mapsto> ''http/getmsgcharge'',
      ''ping'' \<mapsto> ''http/ping'',
      ''sendmsg'' \<mapsto> ''http/sendmsg'',
      ''token_pay'' \<mapsto> ''http/token_pay'',
      ''querymsg'' \<mapsto> ''http/querymsg'',
      ''startbatch'' \<mapsto> ''http_batch/startbatch'',
      ''senditem'' \<mapsto> ''http_batch/senditem'',
      ''quicksend'' \<mapsto> ''http_batch/quicksend'',
      ''endbatch'' \<mapsto> ''http_batch/endbatch'',
      ''routeCoverage'' \<mapsto> ''utils/routeCoverage.php'',
      ''ind_push'' \<mapsto> ''mms/ind_push.php'',
      ''si_push'' \<mapsto> ''mms/si_push'']"

text \<open>
  The keyword arguments of a call, a dict. Its values are strings, or what
  \<^verbatim>\<open>auth['OK']\<close> was. \<^verbatim>\<open>urllib.urlencode\<close> is not code of this module: the functions
  below take it as the parameter \<open>urlencode\<close>.
\<close>

type_synonym args = "string \<rightharpoonup> val"

text \<open>
  The network. \<open>network\<close> is the log of the targets of the GET requests the client has
  made with \<^verbatim>\<open>self._connection.request\<close>, oldest first. A \<open>gateway\<close> says, from that
  log and the target of the next request, what happens to it: \<open>Refused\<close> when
  \<^verbatim>\<open>connect()\<close> raises, \<open>Dropped\<close> when \<^verbatim>\<open>request\<close>, \<^verbatim>\<open>getresponse\<close> or
  \<^verbatim>\<open>read\<close> raises, \<open>Body data\<close> when \<^verbatim>\<open>response.read()\<close> returns \<open>data\<close>.
\<close>

datatype reply = Refused | Dropped | Body string

type_synonym network = "string list"

type_synonym gateway = "network \<Rightarrow> string \<Rightarrow> reply"

text \<open>
  A \<^verbatim>\<open>Clickatell\<close> instance. \<open>connection\<close> follows \<^verbatim>\<open>self._connection\<close>: true from
  the client's \<^verbatim>\<open>connect()\<close> until its \<^verbatim>\<open>close()\<close>. \<open>session_id\<close> is
  \<^verbatim>\<open>self._session_id\<close>, \<open>None\<close> as long as the attribute is not assigned.
\<close>

record clickatell =
  connection :: bool
  session_id :: "val option"

text \<open>
  What an attribute access gives: the closure \<^verbatim>\<open>_handler\<close> that
  \<^verbatim>\<open>_create_handler(method)\<close> returns, an attribute of the instance, or a member of
  the class (its own or one it inherits from \<^verbatim>\<open>object\<close>), by name.
\<close>

datatype attribute =
    Handler string
  | Connection_attr bool
  | Session_attr val
  | Class_member string

definition class_members :: "string list" where
  "class_members =
     [''SERVER'', ''METHODS'', ''__init__'', ''_create_handler'', ''__getattribute__'',
      ''__class__'', ''__delattr__'', ''__dict__'', ''__doc__'', ''__format__'', ''__hash__'',
      ''__module__'', ''__new__'', ''__reduce__'', ''__reduce_ex__'', ''__repr__'',
      ''__setattr__'', ''__sizeof__'', ''__str__'', ''__subclasshook__'', ''__weakref__'']"

text \<open>\<^verbatim>\<open>object.__getattribute__(self, name)\<close>, the ordinary lookup.\<close>

definition object_getattribute :: "clickatell \<Rightarrow> string \<Rightarrow> error + attribute" where
  "object_getattribute self name =
     (if name = ''_connection'' then Inr (Connection_attr (connection self))
      else if name = ''_session_id''
      then (case session_id self of
              None \<Rightarrow> Inl AttributeError
            | Some token \<Rightarrow> Inr (Session_attr token))
      else if name \<in> set class_members then Inr (Class_member name)
      else Inl AttributeError)"

text \<open>\<^verbatim>\<open>Clickatell.__getattribute__\<close>.\<close>

definition getattribute :: "clickatell \<Rightarrow> string \<Rightarrow> error + attribute" where
  "getattribute self name =
     (case METHODS name of
        Some method \<Rightarrow> Inr (Handler method)
      | None \<Rightarrow> object_getattribute self name)"

text \<open>
  \<^verbatim>\<open>_handler(**args)\<close> of \<^verbatim>\<open>_create_handler(method)\<close>. \<^verbatim>\<open>hasattr\<close> is an
  attribute access that succeeds. \<^verbatim>\<open>self._connection.close()\<close> is the statement after
  \<^verbatim>\<open>result = ClickatellResponse(response.read())\<close>: an exception before it or in it
  leaves the function without closing.
\<close>

definition handler ::
  "(args \<Rightarrow> string) \<Rightarrow> gateway \<Rightarrow> string \<Rightarrow> clickatell \<Rightarrow> network \<Rightarrow> args
     \<Rightarrow> (error + response) \<times> clickatell \<times> network" where
  "handler urlencode gateway method self net args =
     (let args = (case getattribute self ''_session_id'' of
                    Inr (Session_attr token) \<Rightarrow> args(''session_id'' \<mapsto> token)
                  | _ \<Rightarrow> args);
          params = urlencode args;
          target = ''/'' @ method @ ''?'' @ params
      in case gateway net target of
           Refused \<Rightarrow> (Inl TransportError, self, net)
         | Dropped \<Rightarrow> (Inl TransportError, self\<lparr>connection := True\<rparr>, net @ [target])
         | Body data \<Rightarrow>
             (case ClickatellResponse data of
                Inl e \<Rightarrow> (Inl e, self\<lparr>connection := True\<rparr>, net @ [target])
              | Inr result \<Rightarrow> (Inr result, self\<lparr>connection := False\<rparr>, net @ [target])))"

text \<open>
  \<^verbatim>\<open>Clickatell(user, password, api_id)\<close>: the instance, or the exception of
  \<^verbatim>\<open>__init__\<close>. The last case is not reached, \<^verbatim>\<open>auth\<close> being a key of
  \<^verbatim>\<open>METHODS\<close>.
\<close>

definition Clickatell_init ::
  "(args \<Rightarrow> string) \<Rightarrow> gateway \<Rightarrow> val \<Rightarrow> val \<Rightarrow> val \<Rightarrow> network
     \<Rightarrow> (error + clickatell) \<times> network" where
  "Clickatell_init urlencode gateway user password api_id net =
     (let self = \<lparr>connection = False, session_id = None\<rparr>
      in case getattribute self ''auth'' of
           Inl e \<Rightarrow> (Inl e, net)
         | Inr (Handler method) \<Rightarrow>
             (case handler urlencode gateway method self net
                     [''user'' \<mapsto> user, ''password'' \<mapsto> password, ''api_id'' \<mapsto> api_id] of
                (Inl e, self, net) \<Rightarrow> (Inl e, net)
              | (Inr auth, self, net) \<Rightarrow>
                  (case auth ''OK'' of
                     None \<Rightarrow> (Inl KeyError, net)
                   | Some token \<Rightarrow> (Inr (self\<lparr>session_id := Some token\<rparr>), net)))
         | Inr _ \<Rightarrow> (Inl TypeError, net))"

text \<open>
  A caller's \<^verbatim>\<open>client.name(**args)\<close>: the attribute access, and the call when the
  access gave a handler. Another attribute is handed to the caller as it is; what the
  caller does with it is the caller's code.
\<close>

datatype outcome = Result response | Exposed attribute

definition invoke ::
  "(args \<Rightarrow> string) \<Rightarrow> gateway \<Rightarrow> clickatell \<Rightarrow> network \<Rightarrow> string \<Rightarrow> args
     \<Rightarrow> (error + outcome) \<times> clickatell \<times> network" where
  "invoke urlencode gateway self net name args =
     (case getattribute self name of
        Inl e \<Rightarrow> (Inl e, self, net)
      | Inr (Handler method) \<Rightarrow>
          (case handler urlencode gateway method self net args of
             (Inl e, self', net') \<Rightarrow> (Inl e, self', net')
           | (Inr result, self', net') \<Rightarrow> (Inr (Result result), self', net'))
      | Inr a \<Rightarrow> (Inr (Exposed a), self, net))"

text \<open>A caller that makes the calls \<open>cs\<close> one after the other on the same client, going
  on after an exception.\<close>

fun calls ::
  "(args \<Rightarrow> string) \<Rightarrow> gateway \<Rightarrow> (string \<times> args) list \<Rightarrow> clickatell \<times> network
     \<Rightarrow> clickatell \<times> network" where
  "calls urlencode gateway [] state = state"
| "calls urlencode gateway ((name, args) # cs) state =
     (case invoke urlencode gateway (fst state) (snd state) name args of
        (r, self', net') \<Rightarrow> calls urlencode gateway cs (self', net'))"

text \<open>The dict that \<^verbatim>\<open>_handler\<close> passes to \<^verbatim>\<open>urlencode\<close>: the caller's
  arguments, with \<^verbatim>\<open>session_id\<close> set to the stored token when there is one.\<close>

definition injected :: "clickatell \<Rightarrow> args \<Rightarrow> args" where
  "injected self args =
     (case session_id self of
        None \<Rightarrow> args
      | Some token \<Rightarrow> args(''session_id'' \<mapsto> token))"


text \<open>
  The log a caller's calls \<open>cs\<close> must leave when every call of an operation sends the
  stored token: each call of a name of the endpoint table adds the target of its path
  with \<^verbatim>\<open>session_id\<close> set to \<open>token\<close> among its parameters, unless the connection is
  refused.
\<close>

fun issued ::
  "(args \<Rightarrow> string) \<Rightarrow> gateway \<Rightarrow> val \<Rightarrow> (string \<times> args) list \<Rightarrow> network \<Rightarrow> network" where
  "issued urlencode gateway token [] net = net"
| "issued urlencode gateway token ((name, args) # cs) net =
     (case METHODS name of
        None \<Rightarrow> issued urlencode gateway token cs net
      | Some path \<Rightarrow>
          (let target = ''/'' @ path @ ''?'' @ urlencode (args(''session_id'' \<mapsto> token))
           in issued urlencode gateway token cs
                (if gateway net target = Refused then net else net @ [target])))"

section \<open>Facts about strings and the pattern\<close>

declare value_group.simps [simp del]

lemma str_split_nonempty: "str_split sep s \<noteq> []"
  by (induction s) (auto split: list.splits)

lemma str_split_no_sep: "l \<in> set (str_split sep s) \<Longrightarrow> sep \<notin> set l"
proof (induction s arbitrary: l)
  case Nil
  then show ?case by simp
next
  case (Cons c cs)
  then show ?case
    by (cases "str_split sep cs") (auto split: if_splits)
qed

lemma last_dropWhile: "dropWhile P xs \<noteq> [] \<Longrightarrow> last (dropWhile P xs) = last xs"
  by (induction xs) (auto split: if_splits)

lemma set_strip: "set (strip s) \<subseteq> set s"
proof
  fix x
  assume "x \<in> set (strip s)"
  then have "x \<in> set (dropWhile isspace (rev (dropWhile isspace s)))"
    by (simp add: strip_def)
  then have "x \<in> set (rev (dropWhile isspace s))" by (rule set_dropWhileD)
  then have "x \<in> set (dropWhile isspace s)" by simp
  then show "x \<in> set s" by (rule set_dropWhileD)
qed

lemma dropWhile_self: "ys = [] \<or> \<not> P (hd ys) \<Longrightarrow> dropWhile P ys = ys"
  by (cases ys) auto

lemma strip_ends:
  assumes "strip s \<noteq> []"
  shows "\<not> isspace (hd (strip s))" and "\<not> isspace (last (strip s))"
proof -
  let ?t = "dropWhile isspace s"
  let ?u = "dropWhile isspace (rev ?t)"
  from assms have u: "?u \<noteq> []" by (simp add: strip_def)
  have t: "?t \<noteq> []"
  proof
    assume "?t = []"
    then have "?u = []" by (simp only: rev.simps dropWhile.simps)
    with u show False by (rule notE)
  qed
  have "hd (strip s) = last ?u" using u by (simp add: strip_def hd_rev)
  also have "\<dots> = last (rev ?t)" using u by (rule last_dropWhile)
  also have "\<dots> = hd ?t" using t by (simp add: last_rev)
  finally show "\<not> isspace (hd (strip s))" using hd_dropWhile [OF t] by simp
  have "last (strip s) = hd ?u" using u by (simp add: strip_def last_rev)
  then show "\<not> isspace (last (strip s))" using hd_dropWhile [OF u] by simp
qed

lemma strip_id:
  assumes "xs = [] \<or> (\<not> isspace (hd xs) \<and> \<not> isspace (last xs))"
  shows "strip xs = xs"
proof (cases xs)
  case Nil
  then show ?thesis by (simp add: strip_def)
next
  case (Cons x xs')
  with assms have h: "\<not> isspace x" and l: "\<not> isspace (last xs)" by auto
  have 1: "dropWhile isspace xs = xs" using Cons h by simp
  have "hd (rev xs) = last xs" using Cons by (simp add: hd_rev)
  with l have "dropWhile isspace (rev xs) = rev xs" by (simp add: dropWhile_self)
  with 1 show ?thesis by (simp add: strip_def)
qed

lemma value_group_no_NL:
  assumes "NL \<notin> set r"
  shows "value_group (length (takeWhile isspace r)) r = Some (dropWhile isspace r)"
proof -
  have d: "drop (length (takeWhile isspace r)) r = dropWhile isspace r"
    by (simp add: dropWhile_eq_drop)
  have "NL \<notin> set (dropWhile isspace r)" using assms set_dropWhileD by fast
  then have "takeWhile (\<lambda>c. c \<noteq> NL) (dropWhile isspace r) = dropWhile isspace r"
    and "dropWhile (\<lambda>c. c \<noteq> NL) (dropWhile isspace r) = []"
    by (auto simp: takeWhile_eq_all_conv)
  then show ?thesis
    by (subst value_group.simps) (simp add: d Let_def)
qed

lemma match_no_NL:
  assumes "KEY_VALUE_RE_match s = Some (k, v)" and "NL \<notin> set s"
  shows "\<exists>r. s = k @ CHR '':'' # r \<and> k = takeWhile isalpha s \<and> k \<noteq> [] \<and> v = dropWhile isspace r"
proof -
  from assms(1) have k: "k = takeWhile isalpha s" "k \<noteq> []"
    by (auto simp: KEY_VALUE_RE_match_def Let_def split: if_splits list.splits)
  from assms(1) obtain r where r: "dropWhile isalpha s = CHR '':'' # r"
    "value_group (length (takeWhile isspace r)) r = Some v"
    by (auto simp: KEY_VALUE_RE_match_def Let_def split: if_splits list.splits)
  have s: "s = k @ CHR '':'' # r"
    using k(1) r(1) takeWhile_dropWhile_id [of isalpha s] by simp
  with assms(2) have "NL \<notin> set r" by auto
  from value_group_no_NL [OF this] r(2) have "v = dropWhile isspace r" by simp
  with s k show ?thesis by blast
qed


section \<open>Facts about the parsing loop\<close>

lemma line_pairs_Nil [simp]: "line_pairs [] = []"
  by (simp add: line_pairs_def map_filter_simps)

lemma line_pairs_Cons:
  "line_pairs (l # ls) =
     (if strip l = [] then line_pairs ls
      else (case KEY_VALUE_RE_match (strip l) of
              None \<Rightarrow> line_pairs ls
            | Some kv \<Rightarrow> kv # line_pairs ls))"
  by (simp add: line_pairs_def map_filter_simps split: option.splits)

lemma merged_store: "merged (store self k v k) vs = merged (self k) (v # vs)"
  by (cases "self k"; cases vs) (auto simp: store_def split: val.splits)

lemma store_other: "k' \<noteq> k \<Longrightarrow> store self k v k' = self k'"
  by (auto simp: store_def split: option.splits val.splits)

lemma match_nonempty: "KEY_VALUE_RE_match s = Some kv \<Longrightarrow> s \<noteq> []"
  by (auto simp: KEY_VALUE_RE_match_def)

lemma parse_lines_ok:
  assumes "\<forall>l\<in>set ls. strip l \<noteq> [] \<longrightarrow>
             (\<exists>k v. KEY_VALUE_RE_match (strip l) = Some (k, v) \<and> k \<noteq> ''ERR'')"
  shows "\<exists>m. parse_lines self ls = Inr m \<and>
           (\<forall>k. m k = merged (self k) (map snd (filter (\<lambda>kv. fst kv = k) (line_pairs ls))))"
  using assms
proof (induction ls arbitrary: self)
  case Nil
  then show ?case by simp
next
  case (Cons l ls)
  show ?case
  proof (cases "strip l = []")
    case True
    with Cons show ?thesis by (simp add: line_pairs_Cons)
  next
    case False
    with Cons.prems obtain k v
      where kv: "KEY_VALUE_RE_match (strip l) = Some (k, v)" "k \<noteq> ''ERR''"
      by auto
    from Cons.prems
    have "\<forall>l\<in>set ls. strip l \<noteq> [] \<longrightarrow>
            (\<exists>k v. KEY_VALUE_RE_match (strip l) = Some (k, v) \<and> k \<noteq> ''ERR'')"
      by simp
    from Cons.IH [OF this, of "store self k v"]
    obtain m where m: "parse_lines (store self k v) ls = Inr m"
      "\<forall>k'. m k' = merged (store self k v k')
                      (map snd (filter (\<lambda>kv. fst kv = k') (line_pairs ls)))"
      by blast
    have "parse_lines self (l # ls) = Inr m"
      using False kv m(1) by (simp add: Let_def)
    moreover
    have "m k' = merged (self k') (map snd (filter (\<lambda>kv. fst kv = k') (line_pairs (l # ls))))"
      for k'
    proof (cases "k' = k")
      case True
      then show ?thesis using m(2) False kv by (simp add: line_pairs_Cons merged_store)
    next
      case ne: False
      then show ?thesis using m(2) False kv by (auto simp add: line_pairs_Cons store_other)
    qed
    ultimately show ?thesis by blast
  qed
qed

lemma parse_lines_malformed:
  assumes "l \<in> set ls" "strip l \<noteq> []" "KEY_VALUE_RE_match (strip l) = None"
  shows "\<exists>e. parse_lines self ls = Inl e"
  using assms
  by (induction ls arbitrary: self) (auto simp: Let_def split: option.splits)

lemma parse_lines_malformed_no_ERR:
  assumes "l \<in> set ls" "strip l \<noteq> []" "KEY_VALUE_RE_match (strip l) = None"
    and "''ERR'' \<notin> fst ` set (line_pairs ls)"
  shows "parse_lines self ls = Inl AttributeError"
  using assms
  by (induction ls arbitrary: self)
    (auto simp: line_pairs_Cons Let_def split: option.splits if_splits)


lemma set_line_pairs:
  "kv \<in> set (line_pairs ls) \<longleftrightarrow> (\<exists>l\<in>set ls. strip l \<noteq> [] \<and> KEY_VALUE_RE_match (strip l) = Some kv)"
  by (induction ls) (auto simp: line_pairs_Cons split: option.splits)

lemma well_formed_lines:
  assumes "well_formed data" "''ERR'' \<notin> set (keys_of data)"
  shows "\<forall>l\<in>set (str_split NL data). strip l \<noteq> [] \<longrightarrow>
             (\<exists>k v. KEY_VALUE_RE_match (strip l) = Some (k, v) \<and> k \<noteq> ''ERR'')"
proof (intro ballI impI)
  fix l assume l: "l \<in> set (str_split NL data)" "strip l \<noteq> []"
  then have "strip l \<in> set (response_lines data)"
    by (auto simp: response_lines_def)
  with assms(1) obtain k v where kv: "KEY_VALUE_RE_match (strip l) = Some (k, v)"
    by (auto simp: well_formed_def list_all_iff)
  with l have "(k, v) \<in> set (pairs data)"
    unfolding pairs_def set_line_pairs by blast
  then have "k \<in> set (keys_of data)"
    by (force simp: keys_of_def)
  with assms(2) kv show "\<exists>k v. KEY_VALUE_RE_match (strip l) = Some (k, v) \<and> k \<noteq> ''ERR''"
    by auto
qed

lemma parse_response_ok:
  assumes "well_formed data" "''ERR'' \<notin> set (keys_of data)"
  shows "\<exists>m. parse_response data = Inr m \<and> (\<forall>k. m k = merged None (occurrences k data))"
  using parse_lines_ok [OF well_formed_lines [OF assms], of Map.empty]
  by (simp add: parse_response_def occurrences_def pairs_def)

lemma match_value_trimmed:
  assumes "KEY_VALUE_RE_match (strip l) = Some (k, v)" and "NL \<notin> set l"
  shows "strip v = v"
proof -
  have ne: "strip l \<noteq> []" using assms(1) match_nonempty by blast
  have "NL \<notin> set (strip l)" using assms(2) set_strip by fast
  from match_no_NL [OF assms(1) this] obtain r
    where r: "strip l = k @ CHR '':'' # r" "v = dropWhile isspace r" by blast
  show ?thesis
  proof (cases "v = []")
    case True
    then show ?thesis by (simp add: strip_id)
  next
    case False
    then have "\<not> isspace (hd v)" using r(2) hd_dropWhile by metis
    moreover have "last v = last r" using False r(2) last_dropWhile by metis
    moreover have "r \<noteq> []" using False r(2) by auto
    then have "last r = last (strip l)" using r(1) by simp
    ultimately show ?thesis using strip_ends(2) [OF ne] by (simp add: strip_id)
  qed
qed

lemma unique_occurrence:
  "distinct (map fst xs) \<Longrightarrow> (k, v) \<in> set xs \<Longrightarrow> map snd (filter (\<lambda>kv. fst kv = k) xs) = [v]"
proof (induction xs)
  case Nil
  then show ?case by simp
next
  case (Cons x xs)
  show ?case
  proof (cases "x = (k, v)")
    case True
    with Cons.prems have "filter (\<lambda>kv. fst kv = k) xs = []"
      by (auto simp: filter_empty_conv image_iff)
    with True show ?thesis by simp
  next
    case False
    with Cons.prems have "(k, v) \<in> set xs" "fst x \<noteq> k" by (auto simp: image_iff)
    with Cons show ?thesis by simp
  qed
qed

lemma merged_None_iff: "merged None vs = None \<longleftrightarrow> vs = []"
proof (cases vs)
  case Nil
  then show ?thesis by simp
next
  case (Cons v ws)
  then show ?thesis by (cases ws) auto
qed

lemma length_pairs:
  "well_formed data \<Longrightarrow> length (pairs data) = length (response_lines data)"
proof -
  have "list_all (\<lambda>l. f l \<noteq> None) xs \<Longrightarrow> length (List.map_filter f xs) = length xs"
    for f :: "string \<Rightarrow> (string \<times> string) option" and xs
    by (induction xs) (auto simp: map_filter_simps split: option.splits)
  then show "well_formed data \<Longrightarrow> length (pairs data) = length (response_lines data)"
    unfolding well_formed_def pairs_def line_pairs_def response_lines_def by blast
qed




section \<open>Properties of the response parser\<close>

text \<open>
  C1 (as amended). For a well-formed response text with no \<^verbatim>\<open>ERR\<close> line and no
  duplicate keys, parsing returns a dict with exactly one entry per non-empty line: its
  keys are the keys of the lines, and each key is mapped to the single string that is
  the trimmed value of its line. The dict is Python 2's \<^verbatim>\<open>dict\<close>: it holds no order
  of the keys.
\<close>

theorem unique_keys_parsed:
  assumes "well_formed data" and "''ERR'' \<notin> set (keys_of data)" and "distinct (keys_of data)"
  shows "\<exists>m. parse_response data = Inr m \<and>
              dom m = set (keys_of data) \<and>
              card (dom m) = length (response_lines data) \<and>
              (\<forall>(key, value) \<in> set (pairs data). m key = Some (Str value) \<and> strip value = value)"
proof -
  from parse_response_ok [OF assms(1,2)] obtain m
    where m: "parse_response data = Inr m" "\<forall>k. m k = merged None (occurrences k data)"
    by blast
  have "k \<in> dom m \<longleftrightarrow> k \<in> set (keys_of data)" for k
  proof -
    have "k \<in> dom m \<longleftrightarrow> occurrences k data \<noteq> []"
      using m(2) merged_None_iff by (auto simp: dom_def)
    also have "\<dots> \<longleftrightarrow> k \<in> set (keys_of data)"
      by (auto simp: occurrences_def keys_of_def filter_empty_conv image_iff)
    finally show ?thesis .
  qed
  then have d: "dom m = set (keys_of data)" by blast
  have "card (dom m) = card (set (keys_of data))" using d by simp
  also have "\<dots> = length (keys_of data)" using assms(3) by (rule distinct_card)
  also have "\<dots> = length (pairs data)" by (simp add: keys_of_def)
  also have "\<dots> = length (response_lines data)" by (rule length_pairs [OF assms(1)])
  finally have c: "card (dom m) = length (response_lines data)" .
  have "m k = Some (Str v) \<and> strip v = v" if kv: "(k, v) \<in> set (pairs data)" for k v
  proof -
    from unique_occurrence [OF _ kv] assms(3) have "occurrences k data = [v]"
      by (simp add: occurrences_def keys_of_def)
    with m(2) have 1: "m k = Some (Str v)" by simp
    from kv obtain l where l: "l \<in> set (str_split NL data)"
      "KEY_VALUE_RE_match (strip l) = Some (k, v)"
      unfolding pairs_def set_line_pairs by blast
    from match_value_trimmed [OF l(2) str_split_no_sep [OF l(1)]] 1 show ?thesis by simp
  qed
  with m(1) d c show ?thesis by blast
qed

theorem unique_keys_parsed_witness:
  "well_formed (''OK: abc'' @ [NL] @ ''ID: m1  '' @ [NL]) \<and>
   ''ERR'' \<notin> set (keys_of (''OK: abc'' @ [NL] @ ''ID: m1  '' @ [NL])) \<and>
   distinct (keys_of (''OK: abc'' @ [NL] @ ''ID: m1  '' @ [NL])) \<and>
   (\<exists>m. parse_response (''OK: abc'' @ [NL] @ ''ID: m1  '' @ [NL]) = Inr m \<and>
        dom m = {''OK'', ''ID''} \<and> card (dom m) = 2 \<and>
        m ''OK'' = Some (Str ''abc'') \<and> m ''ID'' = Some (Str ''m1''))"
proof -
  let ?D = "''OK: abc'' @ [NL] @ ''ID: m1  '' @ [NL]"
  have 1: "well_formed ?D" by code_simp
  have 2: "''ERR'' \<notin> set (keys_of ?D)" by code_simp
  have 3: "distinct (keys_of ?D)" by code_simp
  have p: "pairs ?D = [(''OK'', ''abc''), (''ID'', ''m1'')]" by code_simp
  have k: "keys_of ?D = [''OK'', ''ID'']" by code_simp
  have l: "length (response_lines ?D) = 2" by code_simp
  from unique_keys_parsed [OF 1 2 3] obtain m
    where "parse_response ?D = Inr m" "dom m = set (keys_of ?D)"
      "card (dom m) = length (response_lines ?D)"
      "\<forall>(key, value) \<in> set (pairs ?D). m key = Some (Str value) \<and> strip value = value"
    by blast
  then have "parse_response ?D = Inr m \<and> dom m = {''OK'', ''ID''} \<and> card (dom m) = 2 \<and>
        m ''OK'' = Some (Str ''abc'') \<and> m ''ID'' = Some (Str ''m1'')"
    unfolding p k l by simp
  then show ?thesis using 1 2 3 by blast
qed

text \<open>
  The dict does not hold the order of the lines: two response texts with the same lines
  in different orders give equal dicts.
\<close>

theorem parsed_order_counterexample:
  "parse_response (''A: 1'' @ [NL] @ ''B: 2'') = parse_response (''B: 2'' @ [NL] @ ''A: 1'') \<and>
   keys_of (''A: 1'' @ [NL] @ ''B: 2'') \<noteq> keys_of (''B: 2'' @ [NL] @ ''A: 1'')"
proof
  show "parse_response (''A: 1'' @ [NL] @ ''B: 2'') = parse_response (''B: 2'' @ [NL] @ ''A: 1'')"
    by (simp add: parse_response_def strip_def isspace_def KEY_VALUE_RE_match_def isalpha_def
        value_group.simps store_def fun_upd_twist)
  show "keys_of (''A: 1'' @ [NL] @ ''B: 2'') \<noteq> keys_of (''B: 2'' @ [NL] @ ''A: 1'')"
    by code_simp
qed

text \<open>
  C2. For a response text without an \<^verbatim>\<open>ERR\<close> line: when every non-empty line
  matches the pattern, parsing returns a dict in which a key that appears two or more
  times holds the list of all its values in the order received, a key that appears
  exactly once holds a single string, and no other key is present; when some line does
  not match, there is no dict at all (\<^verbatim>\<open>AttributeError\<close>).
\<close>

theorem repeating_keys_collected:
  assumes "''ERR'' \<notin> set (keys_of data)"
  shows "if well_formed data
         then \<exists>m. parse_response data = Inr m \<and>
                (\<forall>key. (occurrences key data = [] \<longrightarrow> m key = None) \<and>
                       (\<forall>v. occurrences key data = [v] \<longrightarrow> m key = Some (Str v)) \<and>
                       (2 \<le> length (occurrences key data) \<longrightarrow>
                          m key = Some (Lst (occurrences key data))))
         else parse_response data = Inl AttributeError"
proof (cases "well_formed data")
  case True
  from parse_response_ok [OF True assms] obtain m
    where m: "parse_response data = Inr m" "\<forall>k. m k = merged None (occurrences k data)"
    by blast
  have "(occurrences key data = [] \<longrightarrow> m key = None) \<and>
        (\<forall>v. occurrences key data = [v] \<longrightarrow> m key = Some (Str v)) \<and>
        (2 \<le> length (occurrences key data) \<longrightarrow> m key = Some (Lst (occurrences key data)))"
    for key
  proof (cases "occurrences key data")
    case Nil
    then show ?thesis using m(2) by simp
  next
    case (Cons v vs)
    then show ?thesis using m(2) by (cases vs) simp_all
  qed
  with True m(1) show ?thesis by simp
next
  case False
  then have "\<exists>l\<in>set (response_lines data). KEY_VALUE_RE_match l = None"
    unfolding well_formed_def list_all_iff by (simp only: ball_simps not_not)
  then obtain l where l: "l \<in> set (response_lines data)" "KEY_VALUE_RE_match l = None"
    by blast
  then obtain l0 where l0: "l0 \<in> set (str_split NL data)" "strip l0 \<noteq> []" "l = strip l0"
    by (auto simp: response_lines_def)
  from assms have "''ERR'' \<notin> fst ` set (line_pairs (str_split NL data))"
    by (simp add: keys_of_def pairs_def)
  from parse_lines_malformed_no_ERR [OF l0(1,2) _ this] l(2) l0(3) False
  show ?thesis by (simp add: parse_response_def)
qed

theorem repeating_keys_collected_witness:
  "''ERR'' \<notin> set (keys_of (''ID: m1'' @ [NL] @ ''ID: m2'' @ [NL] @ ''To: 1'' @ [NL])) \<and>
   (\<exists>m. parse_response (''ID: m1'' @ [NL] @ ''ID: m2'' @ [NL] @ ''To: 1'' @ [NL]) = Inr m \<and>
        m ''ID'' = Some (Lst [''m1'', ''m2'']) \<and> m ''To'' = Some (Str ''1'') \<and>
        m ''From'' = None)"
proof -
  let ?D = "''ID: m1'' @ [NL] @ ''ID: m2'' @ [NL] @ ''To: 1'' @ [NL]"
  have 1: "''ERR'' \<notin> set (keys_of ?D)" by code_simp
  have 2: "well_formed ?D" by code_simp
  have o: "occurrences ''ID'' ?D = [''m1'', ''m2'']" "occurrences ''To'' ?D = [''1'']"
    "occurrences ''From'' ?D = []"
    by code_simp+
  from repeating_keys_collected [OF 1] 2 obtain m
    where m: "parse_response ?D = Inr m"
      "\<forall>key. (occurrences key ?D = [] \<longrightarrow> m key = None) \<and>
             (\<forall>v. occurrences key ?D = [v] \<longrightarrow> m key = Some (Str v)) \<and>
             (2 \<le> length (occurrences key ?D) \<longrightarrow> m key = Some (Lst (occurrences key ?D)))"
    by auto
  from m(2) [rule_format, of "''ID''"] m(2) [rule_format, of "''To''"]
    m(2) [rule_format, of "''From''"]
  have "m ''ID'' = Some (Lst [''m1'', ''m2'']) \<and> m ''To'' = Some (Str ''1'') \<and> m ''From'' = None"
    unfolding o by simp
  with m(1) 1 show ?thesis by blast
qed

text \<open>
  C3. An \<^verbatim>\<open>ERR\<close> value with two commas: the gateway sends
  \<^verbatim>\<open>ERR: 120, Invalid login, try again\<close>. \<^verbatim>\<open>value.split(',')\<close> gives three
  pieces, the assignment to \<^verbatim>\<open>code, message\<close> raises \<^verbatim>\<open>ValueError\<close>, and no
  \<^verbatim>\<open>ClickatellError\<close> with code \<^verbatim>\<open>120\<close> is built.
\<close>

theorem ERR_value_with_two_commas:
  "parse_response ''ERR: 120, Invalid login, try again'' = Inl ValueError"
  by (simp add: parse_response_def strip_def isspace_def KEY_VALUE_RE_match_def isalpha_def
      raise_ERR_def value_group.simps)

text \<open>With one comma, and with none, the error is the one the documentation
  describes.\<close>

lemma ERR_value_with_one_comma:
  "parse_response ''ERR: 120, Invalid login''
     = Inl (ClickatellError (Some ''120'') ''Invalid login'')"
  by (simp add: parse_response_def strip_def isspace_def KEY_VALUE_RE_match_def isalpha_def
      raise_ERR_def value_group.simps)

lemma ERR_value_without_comma:
  "parse_response ''ERR: API quota exceeded'' = Inl (ClickatellError None ''API quota exceeded'')"
  by (simp add: parse_response_def strip_def isspace_def KEY_VALUE_RE_match_def isalpha_def
      raise_ERR_def value_group.simps)



text \<open>
  C9. When a non-empty trimmed line of a response text does not match the pattern,
  parsing fails with an exception: the line is not dropped and no dict is returned. With
  no \<^verbatim>\<open>ERR\<close> line in the text the exception is the \<^verbatim>\<open>AttributeError\<close> of
  \<^verbatim>\<open>match.group\<close> on \<^verbatim>\<open>None\<close>.
\<close>

theorem malformed_line_fails:
  assumes "l \<in> set (response_lines data)" and "KEY_VALUE_RE_match l = None"
  shows "(\<exists>e. parse_response data = Inl e) \<and>
         (''ERR'' \<notin> set (keys_of data) \<longrightarrow> parse_response data = Inl AttributeError)"
proof -
  from assms(1) obtain l0
    where l0: "l0 \<in> set (str_split NL data)" "strip l0 \<noteq> []" "l = strip l0"
    by (auto simp: response_lines_def)
  have "\<exists>e. parse_response data = Inl e"
    using parse_lines_malformed [OF l0(1,2)] assms(2) l0(3) by (simp add: parse_response_def)
  moreover have "parse_response data = Inl AttributeError" if "''ERR'' \<notin> set (keys_of data)"
  proof -
    from that have "''ERR'' \<notin> fst ` set (line_pairs (str_split NL data))"
      by (simp add: keys_of_def pairs_def)
    from parse_lines_malformed_no_ERR [OF l0(1,2) _ this] assms(2) l0(3)
    show ?thesis by (simp add: parse_response_def)
  qed
  ultimately show ?thesis by blast
qed

theorem malformed_line_fails_witness:
  "''no colon here'' \<in> set (response_lines (''ID: m1'' @ [NL] @ ''no colon here'' @ [NL])) \<and>
   KEY_VALUE_RE_match ''no colon here'' = None \<and>
   parse_response (''ID: m1'' @ [NL] @ ''no colon here'' @ [NL]) = Inl AttributeError"
proof -
  let ?D = "''ID: m1'' @ [NL] @ ''no colon here'' @ [NL]"
  have 1: "''no colon here'' \<in> set (response_lines ?D)" by code_simp
  have 2: "KEY_VALUE_RE_match ''no colon here'' = None" by code_simp
  have 3: "''ERR'' \<notin> set (keys_of ?D)" by code_simp
  from malformed_line_fails [OF 1 2] 3 have "parse_response ?D = Inl AttributeError" by blast
  with 1 2 show ?thesis by blast
qed

section \<open>Facts about the client\<close>

lemma METHODS_session [simp]: "METHODS ''_session_id'' = None"
  by (simp add: METHODS_def)

lemma METHODS_auth [simp]: "METHODS ''auth'' = Some ''http/auth''"
  by (simp add: METHODS_def)

lemma getattribute_session:
  "getattribute self ''_session_id'' =
     (case session_id self of None \<Rightarrow> Inl AttributeError | Some token \<Rightarrow> Inr (Session_attr token))"
  by (simp add: getattribute_def object_getattribute_def)

lemma object_getattribute_no_handler: "object_getattribute self name \<noteq> Inr (Handler method)"
  by (auto simp: object_getattribute_def split: option.splits)


lemma handler_cases:
  "handler urlencode gateway method self net args =
     (case gateway net (''/'' @ method @ ''?'' @ urlencode (injected self args)) of
        Refused \<Rightarrow> (Inl TransportError, self, net)
      | Dropped \<Rightarrow> (Inl TransportError, self\<lparr>connection := True\<rparr>,
                     net @ [''/'' @ method @ ''?'' @ urlencode (injected self args)])
      | Body data \<Rightarrow>
          (case parse_response data of
             Inl e \<Rightarrow> (Inl e, self\<lparr>connection := True\<rparr>,
                        net @ [''/'' @ method @ ''?'' @ urlencode (injected self args)])
           | Inr result \<Rightarrow> (Inr result, self\<lparr>connection := False\<rparr>,
                             net @ [''/'' @ method @ ''?'' @ urlencode (injected self args)])))"
  by (cases "session_id self")
    (simp_all add: handler_def getattribute_session injected_def ClickatellResponse_def Let_def
      split: reply.splits sum.splits)

lemma handler_session:
  "session_id (fst (snd (handler urlencode gateway method self net args))) = session_id self"
  by (simp add: handler_cases split: reply.splits sum.splits)

lemma handler_log:
  "snd (snd (handler urlencode gateway method self net args)) = net \<or>
   snd (snd (handler urlencode gateway method self net args))
     = net @ [''/'' @ method @ ''?'' @ urlencode (injected self args)]"
  by (simp add: handler_cases split: reply.splits sum.splits)

lemma invoke_session:
  "session_id (fst (snd (invoke urlencode gateway self net name args))) = session_id self"
proof (cases "getattribute self name")
  case (Inl e)
  then show ?thesis by (simp add: invoke_def)
next
  case (Inr a)
  show ?thesis
  proof (cases a)
    case (Handler path)
    with Inr handler_session [of urlencode gateway path self net args] show ?thesis
      by (auto simp: invoke_def split: prod.splits sum.splits)
  qed (use Inr in \<open>simp_all add: invoke_def\<close>)
qed

lemma invoke_log:
  "snd (snd (invoke urlencode gateway self net name args)) = net \<or>
   (\<exists>path. METHODS name = Some path \<and>
      snd (snd (invoke urlencode gateway self net name args))
        = net @ [''/'' @ path @ ''?'' @ urlencode (injected self args)])"
proof (cases "METHODS name")
  case None
  then show ?thesis
    using object_getattribute_no_handler [of self name]
    by (auto simp: invoke_def getattribute_def split: sum.splits attribute.splits)
next
  case (Some path)
  with handler_log [of urlencode gateway path self net args] show ?thesis
    by (auto simp: invoke_def getattribute_def split: prod.splits sum.splits)
qed

lemma calls_after:
  assumes "session_id self = Some token"
  shows "session_id (fst (calls urlencode gateway cs (self, net))) = Some token \<and>
         (\<exists>ts. snd (calls urlencode gateway cs (self, net)) = net @ ts \<and>
            (\<forall>t\<in>set ts. \<exists>(name, args)\<in>set cs. \<exists>path. METHODS name = Some path \<and>
                 t = ''/'' @ path @ ''?'' @ urlencode (args(''session_id'' \<mapsto> token))))"
  using assms
proof (induction cs arbitrary: self net)
  case Nil
  then show ?case by simp
next
  case (Cons c cs)
  obtain name args where c: "c = (name, args)" by (cases c)
  obtain r self' net' where i: "invoke urlencode gateway self net name args = (r, self', net')"
    by (cases "invoke urlencode gateway self net name args")
  have s': "session_id self' = Some token"
    using invoke_session [of urlencode gateway self net name args] i Cons.prems by simp
  have inj: "injected self args = args(''session_id'' \<mapsto> token)"
    using Cons.prems by (simp add: injected_def)
  from invoke_log [of urlencode gateway self net name args] i inj
  obtain us where us: "net' = net @ us"
    "\<forall>t\<in>set us. \<exists>path. METHODS name = Some path \<and>
        t = ''/'' @ path @ ''?'' @ urlencode (args(''session_id'' \<mapsto> token))"
    by auto
  from Cons.IH [OF s', of net'] obtain ts
    where ts: "session_id (fst (calls urlencode gateway cs (self', net'))) = Some token"
      "snd (calls urlencode gateway cs (self', net')) = net' @ ts"
      "\<forall>t\<in>set ts. \<exists>(name, args)\<in>set cs. \<exists>path. METHODS name = Some path \<and>
                 t = ''/'' @ path @ ''?'' @ urlencode (args(''session_id'' \<mapsto> token))"
    by blast
  have step: "calls urlencode gateway (c # cs) (self, net) = calls urlencode gateway cs (self', net')"
    using c i by simp
  have "snd (calls urlencode gateway (c # cs) (self, net)) = net @ (us @ ts)"
    using step ts(2) us(1) by simp
  moreover have "\<forall>t\<in>set (us @ ts). \<exists>(name, args)\<in>set (c # cs). \<exists>path. METHODS name = Some path \<and>
                 t = ''/'' @ path @ ''?'' @ urlencode (args(''session_id'' \<mapsto> token))"
  proof
    fix t
    assume "t \<in> set (us @ ts)"
    then consider "t \<in> set us" | "t \<in> set ts" by auto
    then show "\<exists>(name, args)\<in>set (c # cs). \<exists>path. METHODS name = Some path \<and>
                 t = ''/'' @ path @ ''?'' @ urlencode (args(''session_id'' \<mapsto> token))"
    proof cases
      case 1
      with us(2) have "\<exists>path. METHODS name = Some path \<and>
          t = ''/'' @ path @ ''?'' @ urlencode (args(''session_id'' \<mapsto> token))" by blast
      then show ?thesis unfolding c by simp
    next
      case 2
      with ts(3) have "\<exists>(name, args)\<in>set cs. \<exists>path. METHODS name = Some path \<and>
          t = ''/'' @ path @ ''?'' @ urlencode (args(''session_id'' \<mapsto> token))" by blast
      then show ?thesis by auto
    qed
  qed
  ultimately have "\<exists>ts'. snd (calls urlencode gateway (c # cs) (self, net)) = net @ ts' \<and>
      (\<forall>t\<in>set ts'. \<exists>(name, args)\<in>set (c # cs). \<exists>path. METHODS name = Some path \<and>
                 t = ''/'' @ path @ ''?'' @ urlencode (args(''session_id'' \<mapsto> token)))"
    by blast
  moreover have "session_id (fst (calls urlencode gateway (c # cs) (self, net))) = Some token"
    using step ts(1) by simp
  ultimately show ?case by blast
qed

lemma init_success:
  assumes "Clickatell_init urlencode gateway user password api_id net = (Inr self, net')"
  shows "\<exists>data auth token.
           gateway net (''/http/auth?'' @ urlencode [''user'' \<mapsto> user, ''password'' \<mapsto> password, ''api_id'' \<mapsto> api_id]) = Body data \<and>
           parse_response data = Inr auth \<and> auth ''OK'' = Some token \<and>
           self = \<lparr>connection = False, session_id = Some token\<rparr> \<and>
           net' = net @ [''/http/auth?'' @ urlencode [''user'' \<mapsto> user, ''password'' \<mapsto> password, ''api_id'' \<mapsto> api_id]]"
proof -
  let ?args = "[''user'' \<mapsto> user, ''password'' \<mapsto> password, ''api_id'' \<mapsto> api_id]"
  let ?self = "\<lparr>connection = False, session_id = None\<rparr>"
  let ?target = "''/http/auth?'' @ urlencode ?args"
  have inj: "injected ?self ?args = ?args" by (simp add: injected_def)
  have init: "Clickatell_init urlencode gateway user password api_id net =
      (case handler urlencode gateway ''http/auth'' ?self net ?args of
         (Inl e, self, net) \<Rightarrow> (Inl e, net)
       | (Inr auth, self, net) \<Rightarrow>
           (case auth ''OK'' of
              None \<Rightarrow> (Inl KeyError, net)
            | Some token \<Rightarrow> (Inr (self\<lparr>session_id := Some token\<rparr>), net)))"
    by (simp add: Clickatell_init_def getattribute_def)
  show ?thesis
  proof (cases "gateway net ?target")
    case Refused
    then have "handler urlencode gateway ''http/auth'' ?self net ?args = (Inl TransportError, ?self, net)"
      by (simp add: handler_cases inj)
    with assms init show ?thesis by simp
  next
    case Dropped
    then have "handler urlencode gateway ''http/auth'' ?self net ?args
        = (Inl TransportError, ?self\<lparr>connection := True\<rparr>, net @ [?target])"
      by (simp add: handler_cases inj)
    with assms init show ?thesis by simp
  next
    case (Body data)
    show ?thesis
    proof (cases "parse_response data")
      case (Inl e)
      with Body have "handler urlencode gateway ''http/auth'' ?self net ?args
          = (Inl e, ?self\<lparr>connection := True\<rparr>, net @ [?target])"
        by (simp add: handler_cases inj)
      with assms init show ?thesis by simp
    next
      case (Inr auth)
      with Body have h: "handler urlencode gateway ''http/auth'' ?self net ?args
          = (Inr auth, ?self\<lparr>connection := False\<rparr>, net @ [?target])"
        by (simp add: handler_cases inj)
      show ?thesis
      proof (cases "auth ''OK''")
        case None
        with assms init h show ?thesis by simp
      next
        case (Some token)
        with assms init h have "self = \<lparr>connection = False, session_id = Some token\<rparr>"
          and "net' = net @ [?target]"
          by simp_all
        with Body Inr Some show ?thesis by blast
      qed
    qed
  qed
qed

lemma invoke_handler:
  "METHODS name = Some path \<Longrightarrow>
   invoke urlencode gateway self net name args =
     (case handler urlencode gateway path self net args of
        (Inl e, self', net') \<Rightarrow> (Inl e, self', net')
      | (Inr result, self', net') \<Rightarrow> (Inr (Result result), self', net'))"
  by (simp add: invoke_def getattribute_def)

lemma init_example:
  "Clickatell_init (\<lambda>args. case args ''session_id'' of Some (Str s) \<Rightarrow> ''session_id='' @ s | _ \<Rightarrow> [])
      (\<lambda>net target. Body ''OK: abc123'') (Str ''me'') (Str ''secret'') (Str ''42'') []
    = (Inr \<lparr>connection = False, session_id = Some (Str ''abc123'')\<rparr>, [''/http/auth?''])"
proof -
  have p: "parse_response ''OK: abc123'' = Inr [''OK'' \<mapsto> Str ''abc123'']"
    by (simp add: parse_response_def strip_def isspace_def KEY_VALUE_RE_match_def isalpha_def
        store_def value_group.simps)
  show ?thesis
    by (simp add: Clickatell_init_def getattribute_def handler_cases injected_def p)
qed

lemma invoke_log_table:
  assumes "session_id self = Some token" and "METHODS name = Some path"
  shows "snd (snd (invoke urlencode gateway self net name args)) =
           (if gateway net (''/'' @ path @ ''?'' @ urlencode (args(''session_id'' \<mapsto> token))) = Refused
            then net
            else net @ [''/'' @ path @ ''?'' @ urlencode (args(''session_id'' \<mapsto> token))])"
proof -
  have inj: "injected self args = args(''session_id'' \<mapsto> token)"
    using assms(1) by (simp add: injected_def)
  show ?thesis
    by (simp add: invoke_handler [OF assms(2)] handler_cases inj split: reply.splits sum.splits)
qed

lemma invoke_log_other:
  assumes "METHODS name = None"
  shows "snd (snd (invoke urlencode gateway self net name args)) = net"
  using assms object_getattribute_no_handler [of self name]
  by (auto simp: invoke_def getattribute_def split: sum.splits attribute.splits)

lemma calls_issued:
  assumes "session_id self = Some token"
  shows "snd (calls urlencode gateway cs (self, net)) = issued urlencode gateway token cs net"
  using assms
proof (induction cs arbitrary: self net)
  case Nil
  then show ?case by simp
next
  case (Cons c cs)
  obtain name args where c: "c = (name, args)" by (cases c)
  obtain r self' net' where i: "invoke urlencode gateway self net name args = (r, self', net')"
    by (cases "invoke urlencode gateway self net name args")
  have s': "session_id self' = Some token"
    using invoke_session [of urlencode gateway self net name args] i Cons.prems by simp
  have step: "calls urlencode gateway (c # cs) (self, net) = calls urlencode gateway cs (self', net')"
    using c i by simp
  show ?case
  proof (cases "METHODS name")
    case None
    from invoke_log_other [OF None, of urlencode gateway self net args] i have "net' = net" by simp
    with Cons.IH [OF s', of net'] step c None show ?thesis by simp
  next
    case (Some path)
    from invoke_log_table [OF Cons.prems Some, of urlencode gateway net args] i
    have "net' = (if gateway net (''/'' @ path @ ''?'' @ urlencode (args(''session_id'' \<mapsto> token))) = Refused
            then net
            else net @ [''/'' @ path @ ''?'' @ urlencode (args(''session_id'' \<mapsto> token))])"
      by simp
    with Cons.IH [OF s', of net'] step c Some show ?thesis by (simp add: Let_def)
  qed
qed

section \<open>Properties of the client\<close>

text \<open>
  C5. Constructing a client makes exactly one request, the \<^verbatim>\<open>auth\<close> request with the
  parameters \<^verbatim>\<open>user\<close>, \<^verbatim>\<open>password\<close> and \<^verbatim>\<open>api_id\<close> and no session token. The
  token stored in the client is the value of the key \<^verbatim>\<open>OK\<close> of the parsed response
  to that request. After any calls of operations of the endpoint table the stored token
  is the same, the log holds, after the \<^verbatim>\<open>auth\<close> request, the request of each of
  these calls with exactly that token under the key \<^verbatim>\<open>session_id\<close> of its
  parameters (a call whose connection is refused sends nothing), and the next call of an
  operation sends its request with that token in the same way.
\<close>

theorem construction_authenticates_once:
  assumes "Clickatell_init urlencode gateway user password api_id net = (Inr self, net')"
  shows "net' = net @ [''/http/auth?'' @ urlencode [''user'' \<mapsto> user, ''password'' \<mapsto> password,
                                                       ''api_id'' \<mapsto> api_id]] \<and>
         (\<exists>data auth token.
            gateway net (''/http/auth?'' @ urlencode [''user'' \<mapsto> user, ''password'' \<mapsto> password,
                                                        ''api_id'' \<mapsto> api_id]) = Body data \<and>
            parse_response data = Inr auth \<and> auth ''OK'' = Some token \<and>
            session_id self = Some token \<and>
            (\<forall>cs. list_all (\<lambda>c. METHODS (fst c) \<noteq> None) cs \<longrightarrow>
               session_id (fst (calls urlencode gateway cs (self, net'))) = Some token \<and>
               snd (calls urlencode gateway cs (self, net')) = issued urlencode gateway token cs net' \<and>
               (\<forall>name path args. METHODS name = Some path \<longrightarrow>
                  snd (snd (invoke urlencode gateway (fst (calls urlencode gateway cs (self, net')))
                              (snd (calls urlencode gateway cs (self, net'))) name args))
                    = (if gateway (snd (calls urlencode gateway cs (self, net')))
                            (''/'' @ path @ ''?'' @ urlencode (args(''session_id'' \<mapsto> token))) = Refused
                       then snd (calls urlencode gateway cs (self, net'))
                       else snd (calls urlencode gateway cs (self, net')) @
                              [''/'' @ path @ ''?'' @ urlencode (args(''session_id'' \<mapsto> token))]))))"
proof -
  from init_success [OF assms] obtain data auth token
    where i: "gateway net (''/http/auth?'' @ urlencode [''user'' \<mapsto> user, ''password'' \<mapsto> password,
                                                        ''api_id'' \<mapsto> api_id]) = Body data"
      "parse_response data = Inr auth" "auth ''OK'' = Some token"
      "self = \<lparr>connection = False, session_id = Some token\<rparr>"
      "net' = net @ [''/http/auth?'' @ urlencode [''user'' \<mapsto> user, ''password'' \<mapsto> password,
                                                       ''api_id'' \<mapsto> api_id]]"
    by blast
  from i(4) have s: "session_id self = Some token" by simp
  have a: "session_id (fst (calls urlencode gateway cs (self, net'))) = Some token" for cs
    using calls_after [OF s, of urlencode gateway cs net'] by blast
  have b: "snd (calls urlencode gateway cs (self, net')) = issued urlencode gateway token cs net'"
    for cs
    by (rule calls_issued [OF s])
  have c: "snd (snd (invoke urlencode gateway (fst (calls urlencode gateway cs (self, net')))
                              (snd (calls urlencode gateway cs (self, net'))) name args))
                    = (if gateway (snd (calls urlencode gateway cs (self, net')))
                            (''/'' @ path @ ''?'' @ urlencode (args(''session_id'' \<mapsto> token))) = Refused
                       then snd (calls urlencode gateway cs (self, net'))
                       else snd (calls urlencode gateway cs (self, net')) @
                              [''/'' @ path @ ''?'' @ urlencode (args(''session_id'' \<mapsto> token))])"
    if "METHODS name = Some path" for cs name path args
    by (rule invoke_log_table [OF a that])
  from a b c have "\<forall>cs. list_all (\<lambda>c. METHODS (fst c) \<noteq> None) cs \<longrightarrow>
               session_id (fst (calls urlencode gateway cs (self, net'))) = Some token \<and>
               snd (calls urlencode gateway cs (self, net')) = issued urlencode gateway token cs net' \<and>
               (\<forall>name path args. METHODS name = Some path \<longrightarrow>
                  snd (snd (invoke urlencode gateway (fst (calls urlencode gateway cs (self, net')))
                              (snd (calls urlencode gateway cs (self, net'))) name args))
                    = (if gateway (snd (calls urlencode gateway cs (self, net')))
                            (''/'' @ path @ ''?'' @ urlencode (args(''session_id'' \<mapsto> token))) = Refused
                       then snd (calls urlencode gateway cs (self, net'))
                       else snd (calls urlencode gateway cs (self, net')) @
                              [''/'' @ path @ ''?'' @ urlencode (args(''session_id'' \<mapsto> token))]))"
    by blast
  with i(1,2,3,5) s show ?thesis by blast
qed

theorem construction_authenticates_once_witness:
  "Clickatell_init (\<lambda>args. case args ''session_id'' of Some (Str s) \<Rightarrow> ''session_id='' @ s | _ \<Rightarrow> [])
      (\<lambda>net target. Body ''OK: abc123'') (Str ''me'') (Str ''secret'') (Str ''42'') []
    = (Inr \<lparr>connection = False, session_id = Some (Str ''abc123'')\<rparr>, [''/http/auth?'']) \<and>
   list_all (\<lambda>c. METHODS (fst c) \<noteq> None)
      [(''sendmsg'', [''to'' \<mapsto> Str ''1'']), (''getbalance'', Map.empty)] \<and>
   calls
      (\<lambda>args. case args ''session_id'' of Some (Str s) \<Rightarrow> ''session_id='' @ s | _ \<Rightarrow> [])
      (\<lambda>net target. Body ''OK: abc123'')
      [(''sendmsg'', [''to'' \<mapsto> Str ''1'']), (''getbalance'', Map.empty)]
      (\<lparr>connection = False, session_id = Some (Str ''abc123'')\<rparr>, [''/http/auth?''])
    = (\<lparr>connection = False, session_id = Some (Str ''abc123'')\<rparr>,
       [''/http/auth?'', ''/http/sendmsg?session_id=abc123'', ''/http/getbalance?session_id=abc123''])"
proof -
  let ?u = "\<lambda>args. case args ''session_id'' of Some (Str s) \<Rightarrow> ''session_id='' @ s | _ \<Rightarrow> []"
  let ?g = "\<lambda>(net :: network) (target :: string). Body ''OK: abc123''"
  let ?self = "\<lparr>connection = False, session_id = Some (Str ''abc123'')\<rparr>"
  let ?cs = "[(''sendmsg'', [''to'' \<mapsto> Str ''1'']), (''getbalance'', Map.empty)]"
  note h = init_example
  have l: "list_all (\<lambda>c. METHODS (fst c) \<noteq> None) ?cs" by (simp add: METHODS_def)
  from construction_authenticates_once [OF h] obtain token
    where t: "session_id ?self = Some token"
      "\<forall>cs. list_all (\<lambda>c. METHODS (fst c) \<noteq> None) cs \<longrightarrow>
         session_id (fst (calls ?u ?g cs (?self, [''/http/auth?'']))) = Some token \<and>
         snd (calls ?u ?g cs (?self, [''/http/auth?''])) = issued ?u ?g token cs [''/http/auth?'']"
    by blast
  from t(1) have tok: "token = Str ''abc123''" by simp
  from t(2) l have n: "snd (calls ?u ?g ?cs (?self, [''/http/auth?''])) = issued ?u ?g token ?cs [''/http/auth?'']"
    by blast
  have "issued ?u ?g (Str ''abc123'') ?cs [''/http/auth?'']
        = [''/http/auth?'', ''/http/sendmsg?session_id=abc123'', ''/http/getbalance?session_id=abc123'']"
    by (simp add: METHODS_def)
  with n tok have n': "snd (calls ?u ?g ?cs (?self, [''/http/auth?'']))
        = [''/http/auth?'', ''/http/sendmsg?session_id=abc123'', ''/http/getbalance?session_id=abc123'']"
    by simp
  have p: "parse_response ''OK: abc123'' = Inr [''OK'' \<mapsto> Str ''abc123'']"
    by (simp add: parse_response_def strip_def isspace_def KEY_VALUE_RE_match_def isalpha_def
        store_def value_group.simps)
  have m: "METHODS ''sendmsg'' = Some ''http/sendmsg''" "METHODS ''getbalance'' = Some ''http/getbalance''"
    by (simp_all add: METHODS_def)
  have f: "fst (calls ?u ?g ?cs (?self, [''/http/auth?''])) = ?self"
    by (simp add: invoke_handler m handler_cases p)
  from f n' have "calls ?u ?g ?cs (?self, [''/http/auth?''])
     = (?self, [''/http/auth?'', ''/http/sendmsg?session_id=abc123'', ''/http/getbalance?session_id=abc123''])"
    by (metis prod.collapse)
  with h l show ?thesis by (intro conjI)
qed

text \<open>
  C6. A call for which the gateway answers with an \<^verbatim>\<open>ERR\<close> line, here
  \<^verbatim>\<open>ping\<close> answered by \<^verbatim>\<open>ERR: 001, Authentication failed\<close>: the handler raises the
  \<^verbatim>\<open>ClickatellError\<close> out of \<^verbatim>\<open>ClickatellResponse(response.read())\<close>, the
  statement \<^verbatim>\<open>self._connection.close()\<close> after it is not run, and the connection is
  left open.
\<close>

theorem connection_left_open_after_ERR:
  "invoke urlencode (\<lambda>net target. Body ''ERR: 001, Authentication failed'') self net ''ping'' args
     = (Inl (ClickatellError (Some ''001'') ''Authentication failed''),
        self\<lparr>connection := True\<rparr>,
        net @ [''/http/ping?'' @ urlencode (injected self args)])"
proof -
  have m: "METHODS ''ping'' = Some ''http/ping''" by (simp add: METHODS_def)
  have p: "parse_response ''ERR: 001, Authentication failed''
             = Inl (ClickatellError (Some ''001'') ''Authentication failed'')"
    by (simp add: parse_response_def strip_def isspace_def KEY_VALUE_RE_match_def isalpha_def
        raise_ERR_def value_group.simps)
  show ?thesis by (simp add: invoke_handler [OF m] handler_cases p)
qed

text \<open>The path without an exception closes the connection.\<close>

lemma connection_closed_after_success:
  "invoke urlencode (\<lambda>net target. Body ''OK:'') self net ''ping'' args
     = (Inr (Result [''OK'' \<mapsto> Str []]), self\<lparr>connection := False\<rparr>,
        net @ [''/http/ping?'' @ urlencode (injected self args)])"
proof -
  have m: "METHODS ''ping'' = Some ''http/ping''" by (simp add: METHODS_def)
  have p: "parse_response ''OK:'' = Inr [''OK'' \<mapsto> Str []]"
    by (simp add: parse_response_def strip_def isspace_def KEY_VALUE_RE_match_def isalpha_def
        store_def value_group.simps)
  show ?thesis by (simp add: invoke_handler [OF m] handler_cases p)
qed

text \<open>
  C7 (as amended). An access to a name that is not in the endpoint table makes no request
  and creates no handler: it is the ordinary attribute lookup. When the client has no
  attribute of that name, the access fails with \<^verbatim>\<open>AttributeError\<close> before any
  request; the name of an attribute the client has is not rejected, the attribute is
  handed to the caller.
\<close>

theorem unknown_name_falls_back:
  assumes "METHODS name = None"
  shows "invoke urlencode gateway self net name args
           = (case object_getattribute self name of
                Inl e \<Rightarrow> Inl e
              | Inr a \<Rightarrow> Inr (Exposed a), self, net) \<and>
         (\<forall>method. getattribute self name \<noteq> Inr (Handler method)) \<and>
         (name \<notin> set class_members \<and> name \<noteq> ''_connection'' \<and> name \<noteq> ''_session_id'' \<longrightarrow>
            invoke urlencode gateway self net name args = (Inl AttributeError, self, net))"
proof -
  have g: "getattribute self name = object_getattribute self name"
    using assms by (simp add: getattribute_def)
  have 1: "invoke urlencode gateway self net name args
           = (case object_getattribute self name of
                Inl e \<Rightarrow> Inl e
              | Inr a \<Rightarrow> Inr (Exposed a), self, net)"
    using object_getattribute_no_handler [of self name]
    by (auto simp: invoke_def g split: sum.splits attribute.splits)
  have 2: "\<forall>method. getattribute self name \<noteq> Inr (Handler method)"
    using object_getattribute_no_handler [of self name] by (simp add: g)
  have 3: "invoke urlencode gateway self net name args = (Inl AttributeError, self, net)"
    if "name \<notin> set class_members \<and> name \<noteq> ''_connection'' \<and> name \<noteq> ''_session_id''"
    using that by (simp add: 1 object_getattribute_def)
  from 1 2 3 show ?thesis by blast
qed

theorem unknown_name_falls_back_witness:
  "METHODS ''sendsms'' = None \<and>
   invoke (\<lambda>args. []) (\<lambda>net target. Body ''OK: abc123'')
      \<lparr>connection = False, session_id = Some (Str ''abc123'')\<rparr> [''/http/auth?''] ''sendsms''
      [''to'' \<mapsto> Str ''1'']
    = (Inl AttributeError, \<lparr>connection = False, session_id = Some (Str ''abc123'')\<rparr>,
       [''/http/auth?''])"
proof -
  have m: "METHODS ''sendsms'' = None" by (simp add: METHODS_def)
  have n: "''sendsms'' \<notin> set class_members \<and> ''sendsms'' \<noteq> ''_connection'' \<and>
           ''sendsms'' \<noteq> ''_session_id''"
    by (simp add: class_members_def)
  from unknown_name_falls_back [OF m] n
  have "invoke (\<lambda>args. []) (\<lambda>net target. Body ''OK: abc123'')
      \<lparr>connection = False, session_id = Some (Str ''abc123'')\<rparr> [''/http/auth?''] ''sendsms''
      [''to'' \<mapsto> Str ''1'']
    = (Inl AttributeError, \<lparr>connection = False, session_id = Some (Str ''abc123'')\<rparr>,
       [''/http/auth?''])"
    by blast
  with m show ?thesis by (rule conjI)
qed

text \<open>
  A name that is not in the endpoint table and is not rejected: \<^verbatim>\<open>_create_handler\<close>,
  the method that makes a handler for any path it is given.
\<close>

theorem create_handler_exposed_counterexample:
  "METHODS ''_create_handler'' = None \<and>
   invoke (\<lambda>args. []) (\<lambda>net target. Body ''OK: abc123'')
      \<lparr>connection = False, session_id = Some (Str ''abc123'')\<rparr> [''/http/auth?'']
      ''_create_handler'' [''method'' \<mapsto> Str ''http/ping'']
    = (Inr (Exposed (Class_member ''_create_handler'')),
       \<lparr>connection = False, session_id = Some (Str ''abc123'')\<rparr>, [''/http/auth?''])"
  by (simp add: METHODS_def invoke_def getattribute_def object_getattribute_def class_members_def)

text \<open>
  C8 (as amended). The endpoint table has exactly fifteen distinct names, each mapped to
  its path, among them \<^verbatim>\<open>auth\<close> to \<^verbatim>\<open>http/auth\<close>, \<^verbatim>\<open>sendmsg\<close> to
  \<^verbatim>\<open>http/sendmsg\<close>, \<^verbatim>\<open>getbalance\<close> to \<^verbatim>\<open>http/getbalance\<close> and
  \<^verbatim>\<open>routeCoverage\<close> to \<^verbatim>\<open>utils/routeCoverage.php\<close>.
\<close>

theorem endpoint_table:
  "card (dom METHODS) = 15 \<and>
   dom METHODS = {''auth'', ''delmsg'', ''getbalance'', ''getmsgcharge'', ''ping'', ''sendmsg'',
                  ''token_pay'', ''querymsg'', ''startbatch'', ''senditem'', ''quicksend'',
                  ''endbatch'', ''routeCoverage'', ''ind_push'', ''si_push''} \<and>
   METHODS ''auth'' = Some ''http/auth'' \<and>
   METHODS ''sendmsg'' = Some ''http/sendmsg'' \<and>
   METHODS ''getbalance'' = Some ''http/getbalance'' \<and>
   METHODS ''routeCoverage'' = Some ''utils/routeCoverage.php''"
proof -
  have d: "dom METHODS = {''auth'', ''delmsg'', ''getbalance'', ''getmsgcharge'', ''ping'', ''sendmsg'',
                  ''token_pay'', ''querymsg'', ''startbatch'', ''senditem'', ''quicksend'',
                  ''endbatch'', ''routeCoverage'', ''ind_push'', ''si_push''}"
    unfolding METHODS_def by (simp only: dom_fun_upd dom_empty option.distinct if_False) auto
  have c: "card (dom METHODS) = 15" unfolding d by simp
  show ?thesis using c d by (simp add: METHODS_def)
qed

text \<open>The table does not have fourteen names.\<close>

theorem fourteen_operations_counterexample: "card (dom METHODS) \<noteq> 14"
proof -
  have "dom METHODS = {''auth'', ''delmsg'', ''getbalance'', ''getmsgcharge'', ''ping'', ''sendmsg'',
                  ''token_pay'', ''querymsg'', ''startbatch'', ''senditem'', ''quicksend'',
                  ''endbatch'', ''routeCoverage'', ''ind_push'', ''si_push''}"
    unfolding METHODS_def by (simp only: dom_fun_upd dom_empty option.distinct if_False) auto
  then show ?thesis by simp
qed

text \<open>
  C10. In every call of an operation on a constructed client, after any calls before it,
  a \<^verbatim>\<open>session_id\<close> among the caller's arguments has no effect: the call is the same
  as without it, and the request it makes carries the stored token under
  \<^verbatim>\<open>session_id\<close>.
\<close>

theorem caller_session_id_overridden:
  assumes "Clickatell_init urlencode gateway user password api_id net0 = (Inr self0, net1)"
    and "calls urlencode gateway cs (self0, net1) = (self, net)"
    and "METHODS name = Some path"
  shows "\<exists>token. session_id self = Some token \<and>
           invoke urlencode gateway self net name (args(''session_id'' \<mapsto> v))
             = invoke urlencode gateway self net name args \<and>
           (gateway net (''/'' @ path @ ''?'' @ urlencode (args(''session_id'' \<mapsto> token))) \<noteq> Refused \<longrightarrow>
              snd (snd (invoke urlencode gateway self net name (args(''session_id'' \<mapsto> v))))
                = net @ [''/'' @ path @ ''?'' @ urlencode (args(''session_id'' \<mapsto> token))])"
proof -
  from init_success [OF assms(1)] obtain token where "session_id self0 = Some token"
    by auto
  from calls_after [OF this, of urlencode gateway cs net1] assms(2)
  have s: "session_id self = Some token" by simp
  have inj: "injected self (args(''session_id'' \<mapsto> v)) = args(''session_id'' \<mapsto> token)"
    "injected self args = args(''session_id'' \<mapsto> token)"
    using s by (simp_all add: injected_def)
  have h: "handler urlencode gateway path self net (args(''session_id'' \<mapsto> v))
           = handler urlencode gateway path self net args"
    unfolding handler_cases inj by (rule refl)
  have 1: "invoke urlencode gateway self net name (args(''session_id'' \<mapsto> v))
             = invoke urlencode gateway self net name args"
    by (simp add: invoke_handler [OF assms(3)] h)
  have 2: "snd (snd (invoke urlencode gateway self net name (args(''session_id'' \<mapsto> v))))
             = net @ [''/'' @ path @ ''?'' @ urlencode (args(''session_id'' \<mapsto> token))]"
    if "gateway net (''/'' @ path @ ''?'' @ urlencode (args(''session_id'' \<mapsto> token))) \<noteq> Refused"
    using that
    by (simp add: invoke_handler [OF assms(3)] handler_cases inj split: reply.splits sum.splits)
  from s 1 2 show ?thesis by blast
qed

theorem caller_session_id_overridden_witness:
  "Clickatell_init (\<lambda>args. case args ''session_id'' of Some (Str s) \<Rightarrow> ''session_id='' @ s | _ \<Rightarrow> [])
      (\<lambda>net target. Body ''OK: abc123'') (Str ''me'') (Str ''secret'') (Str ''42'') []
    = (Inr \<lparr>connection = False, session_id = Some (Str ''abc123'')\<rparr>, [''/http/auth?'']) \<and>
   METHODS ''sendmsg'' = Some ''http/sendmsg'' \<and>
   snd (snd (invoke
      (\<lambda>args. case args ''session_id'' of Some (Str s) \<Rightarrow> ''session_id='' @ s | _ \<Rightarrow> [])
      (\<lambda>net target. Body ''OK: abc123'')
      \<lparr>connection = False, session_id = Some (Str ''abc123'')\<rparr> [''/http/auth?''] ''sendmsg''
      [''to'' \<mapsto> Str ''1'', ''session_id'' \<mapsto> Str ''forged'']))
    = [''/http/auth?'', ''/http/sendmsg?session_id=abc123'']"
proof -
  let ?u = "\<lambda>args. case args ''session_id'' of Some (Str s) \<Rightarrow> ''session_id='' @ s | _ \<Rightarrow> []"
  let ?g = "\<lambda>(net :: network) (target :: string). Body ''OK: abc123''"
  let ?self = "\<lparr>connection = False, session_id = Some (Str ''abc123'')\<rparr>"
  note h = init_example
  have c: "calls ?u ?g [] (?self, [''/http/auth?'']) = (?self, [''/http/auth?''])" by simp
  have m: "METHODS ''sendmsg'' = Some ''http/sendmsg''" by (simp add: METHODS_def)
  from caller_session_id_overridden [OF h c m, of "[''to'' \<mapsto> Str ''1'']" "Str ''forged''"]
  obtain token where t: "session_id ?self = Some token"
    "?g [''/http/auth?''] (''/'' @ ''http/sendmsg'' @ ''?'' @ ?u ([''to'' \<mapsto> Str ''1''](''session_id'' \<mapsto> token))) \<noteq> Refused \<longrightarrow>
     snd (snd (invoke ?u ?g ?self [''/http/auth?''] ''sendmsg'' [''to'' \<mapsto> Str ''1'', ''session_id'' \<mapsto> Str ''forged'']))
       = [''/http/auth?''] @ [''/'' @ ''http/sendmsg'' @ ''?'' @ ?u ([''to'' \<mapsto> Str ''1''](''session_id'' \<mapsto> token))]"
    by blast
  from t(1) have "token = Str ''abc123''" by simp
  with t(2) have "snd (snd (invoke ?u ?g ?self [''/http/auth?''] ''sendmsg''
      [''to'' \<mapsto> Str ''1'', ''session_id'' \<mapsto> Str ''forged'']))
    = [''/http/auth?'', ''/http/sendmsg?session_id=abc123'']"
    by simp
  with h m show ?thesis by (intro conjI)
qed

end
